theory Spec2Isabelle
  imports Main "HOL-Library.Word"
begin

section \<open>JavaScript strings and the two string methods the parser calls\<close>

text \<open>
  A JavaScript string is a finite sequence of 16-bit code units; \<open>lastIndexOf\<close> and
  \<open>substring\<close> count and compare code units. String literals of the source are
  written \<open>js ''...''\<close>.
\<close>

type_synonym code_unit = "16 word"
type_synonym js_string = "code_unit list"

definition js :: "string \<Rightarrow> js_string" where
  "js s = map of_char s"

definition hash :: code_unit where
  "hash = of_char CHR ''#''"

text \<open>
  \<open>s.lastIndexOf(c)\<close> for a search string of one code unit and no position argument:
  the candidates are tried from index \<open>length s - 1\<close> down to 0, the first hit is
  returned, and \<open>-1\<close> when there is none.
\<close>

fun lastIndexOfFrom :: "js_string \<Rightarrow> code_unit \<Rightarrow> nat \<Rightarrow> int" where
  "lastIndexOfFrom s c 0 = - 1"
| "lastIndexOfFrom s c (Suc k) = (if s ! k = c then int k else lastIndexOfFrom s c k)"

definition lastIndexOf :: "js_string \<Rightarrow> code_unit \<Rightarrow> int" where
  "lastIndexOf s c = lastIndexOfFrom s c (length s)"

text \<open>
  \<open>s.substring(start, end)\<close>: both arguments are clamped to \<open>0 .. length s\<close> and
  swapped when \<open>start > end\<close>; an omitted \<open>end\<close> is the length of the string.
\<close>

definition substring :: "js_string \<Rightarrow> int \<Rightarrow> int option \<Rightarrow> js_string" where
  "substring s start end =
     (let len = int (length s);
          intEnd = (case end of None \<Rightarrow> len | Some e \<Rightarrow> e);
          finalStart = min (max start 0) len;
          finalEnd = min (max intEnd 0) len;
          from = min finalStart finalEnd;
          to = max finalStart finalEnd
      in take (nat (to - from)) (drop (nat from) s))"

section \<open>Values, descriptors and run-time errors\<close>

text \<open>The values a field of a descriptor object, or of the result, can hold.\<close>

datatype js_value = Undefined | Null | Str js_string

text \<open>
  Modelled from the spec: the type \<open>PayloadComponent\<close> is declared in
  \<open>config/types.js\<close>, which is not among the sources. A descriptor is a string or an
  object with the fields \<open>path\<close> and (optionally) \<open>exportName\<close>; the file is not
  checked strictly, so \<open>null\<close> and \<open>undefined\<close> reach the function too, as does the
  boolean \<open>false\<close> that switches a component off. A field that is missing from the
  object reads as \<open>Undefined\<close>.
\<close>

datatype PayloadComponent =
    PUndefined
  | PNull
  | PFalse
  | PString js_string
  | PObject (obj_path: js_value) (obj_exportName: js_value)

datatype js_type = TUndefined | TObject | TBoolean | TString

datatype js_error = TypeError

record ParsedComponent =
  exportName :: js_value
  path :: js_value

text \<open>\<open>typeof x\<close>; \<open>typeof null\<close> is \<open>'object'\<close>.\<close>

fun typeof :: "PayloadComponent \<Rightarrow> js_type" where
  "typeof PUndefined = TUndefined"
| "typeof PNull = TObject"
| "typeof PFalse = TBoolean"
| "typeof (PString s) = TString"
| "typeof (PObject p e) = TObject"

text \<open>Truthiness (\<open>!x\<close> is its negation): an object is truthy, the empty string is not.\<close>

fun truthy :: "PayloadComponent \<Rightarrow> bool" where
  "truthy PUndefined = False"
| "truthy PNull = False"
| "truthy PFalse = False"
| "truthy (PString s) = (s \<noteq> [])"
| "truthy (PObject p e) = True"

fun truthy_value :: "js_value \<Rightarrow> bool" where
  "truthy_value Undefined = False"
| "truthy_value Null = False"
| "truthy_value (Str s) = (s \<noteq> [])"

text \<open>
  Property reads \<open>x.path\<close> and \<open>x.exportName\<close>: a \<open>TypeError\<close> on \<open>null\<close> and
  \<open>undefined\<close>, \<open>undefined\<close> on a primitive, the field on an object.
\<close>

fun get_path :: "PayloadComponent \<Rightarrow> js_error + js_value" where
  "get_path PUndefined = Inl TypeError"
| "get_path PNull = Inl TypeError"
| "get_path PFalse = Inr Undefined"
| "get_path (PString s) = Inr Undefined"
| "get_path (PObject p e) = Inr p"

fun get_exportName :: "PayloadComponent \<Rightarrow> js_error + js_value" where
  "get_exportName PUndefined = Inl TypeError"
| "get_exportName PNull = Inl TypeError"
| "get_exportName PFalse = Inr Undefined"
| "get_exportName (PString s) = Inr Undefined"
| "get_exportName (PObject p e) = Inr e"

text \<open>The descriptor itself as a value, where the source has found it to be a string.\<close>

fun string_value :: "PayloadComponent \<Rightarrow> js_value" where
  "string_value (PString s) = Str s"
| "string_value _ = Undefined"

text \<open>
  The method call \<open>v.substring(start, end)\<close> on a value that need not be a string:
  a \<open>TypeError\<close> on \<open>null\<close> and \<open>undefined\<close>.
\<close>

fun substring_call :: "js_value \<Rightarrow> int \<Rightarrow> int option \<Rightarrow> js_error + js_value" where
  "substring_call (Str s) start end = Inr (Str (substring s start end))"
| "substring_call _ start end = Inl TypeError"

text \<open>\<open>v?.lastIndexOf('#') ?? -1\<close>: the optional call gives \<open>undefined\<close> on an absent value.\<close>

fun lastHashIndex_of :: "js_value \<Rightarrow> int" where
  "lastHashIndex_of (Str s) = lastIndexOf s hash"
| "lastHashIndex_of _ = - 1"

definition bind_err :: "js_error + 'a \<Rightarrow> ('a \<Rightarrow> js_error + 'b) \<Rightarrow> js_error + 'b" where
  "bind_err m f = (case m of Inl e \<Rightarrow> Inl e | Inr x \<Rightarrow> f x)"

section \<open>The component-descriptor parser\<close>

text \<open>
  \<open>parsePayloadComponent\<close>, statement by statement. \<open>Inr None\<close> is the returned
  \<open>null\<close>, \<open>Inr (Some r)\<close> a returned object, \<open>Inl TypeError\<close> a thrown error.
\<close>

definition parsePayloadComponent :: "PayloadComponent \<Rightarrow> js_error + ParsedComponent option" where
  "parsePayloadComponent pc =
     (if \<not> truthy pc then Inr None
      else
        bind_err (if typeof pc = TString then Inr (string_value pc) else get_path pc)
          (\<lambda>pathAndMaybeExport.
        let lastHashIndex = lastHashIndex_of pathAndMaybeExport in
        bind_err
          (if lastHashIndex > 0 then
             bind_err (substring_call pathAndMaybeExport (lastHashIndex + 1) None) (\<lambda>exportName1.
             bind_err (substring_call pathAndMaybeExport 0 (Some lastHashIndex)) (\<lambda>path1.
             Inr (exportName1, path1)))
           else Inr (Str (js ''default''), pathAndMaybeExport))
          (\<lambda>(exportName1, path1).
        bind_err
          (if typeof pc = TObject then get_exportName pc else Inr Undefined)
          (\<lambda>explicitName.
        Inr (Some \<lparr> exportName = (if truthy_value explicitName then explicitName else exportName1),
                   path = path1 \<rparr>)))))"

section \<open>The list control panel: drawer visibility\<close>

text \<open>
  The state \<open>visibleDrawer\<close> of \<open>ListControls\<close> is one of \<open>'columns'\<close>,
  \<open>'sort'\<close>, \<open>'where'\<close> or \<open>undefined\<close>: a \<open>drawer option\<close>, with \<open>None\<close> for
  \<open>undefined\<close>.
\<close>

datatype drawer = Columns | Sort | Where

record ListControlsProps =
  enableColumns :: bool
  enableSort :: bool

text \<open>The \<open>onClick\<close> handlers of the three pills, each applied to the current state.\<close>

definition onClick_columns :: "drawer option \<Rightarrow> drawer option" where
  "onClick_columns visibleDrawer = (if visibleDrawer \<noteq> Some Columns then Some Columns else None)"

definition onClick_where :: "drawer option \<Rightarrow> drawer option" where
  "onClick_where visibleDrawer = (if visibleDrawer \<noteq> Some Where then Some Where else None)"

definition onClick_sort :: "drawer option \<Rightarrow> drawer option" where
  "onClick_sort visibleDrawer = (if visibleDrawer \<noteq> Some Sort then Some Sort else None)"

fun click :: "drawer \<Rightarrow> drawer option \<Rightarrow> drawer option" where
  "click Columns visibleDrawer = onClick_columns visibleDrawer"
| "click Where visibleDrawer = onClick_where visibleDrawer"
| "click Sort visibleDrawer = onClick_sort visibleDrawer"

text \<open>
  A collapsible region is open when it is rendered with height \<open>'auto'\<close> rather than 0;
  the filter region is always rendered, the other two under their flags.
\<close>

fun region_open :: "ListControlsProps \<Rightarrow> drawer option \<Rightarrow> drawer \<Rightarrow> bool" where
  "region_open props visibleDrawer Columns = (enableColumns props \<and> visibleDrawer = Some Columns)"
| "region_open props visibleDrawer Where = (visibleDrawer = Some Where)"
| "region_open props visibleDrawer Sort = (enableSort props \<and> visibleDrawer = Some Sort)"

text \<open>
  The initial state given to \<open>useState\<close>. \<open>validateWhereQuery\<close> is imported from
  \<open>WhereBuilder/validateWhereQuery.js\<close> and is a parameter here; \<open>query?.where\<close> is
  \<open>undefined\<close> when the query is, or when it has no \<open>where\<close>.
\<close>

record 'w ListQuery =
  query_where :: "'w option"

definition initial_visibleDrawer :: "('w option \<Rightarrow> bool) \<Rightarrow> 'w ListQuery option \<Rightarrow> drawer option" where
  "initial_visibleDrawer validateWhereQuery query =
     (let shouldInitializeWhereOpened = validateWhereQuery (Option.bind query query_where)
      in if shouldInitializeWhereOpened then Some Where else None)"

section \<open>The list control panel: the search label\<close>

















text \<open>
  The search label as the specification words it: the first label wrapped in the
  'search by' text, the labels in between appended after a comma, the last label after
  the word 'or'; with no searchable field, the label of the title field, or 'ID'. These
  definitions use none of the functions above, only the translation functions: what
  counts as the label of a field is spelled out case by case.
\<close>







section \<open>Facts about the string methods\<close>

lemma lastIndexOfFrom_none:
  "(lastIndexOfFrom s c n = - 1) = (\<forall>i<n. s ! i \<noteq> c)"
  by (induction n) (auto simp: less_Suc_eq)

lemma lastIndexOfFrom_found:
  "lastIndexOfFrom s c n = int k \<Longrightarrow> k < n \<and> s ! k = c \<and> (\<forall>j. k < j \<and> j < n \<longrightarrow> s ! j \<noteq> c)"
proof (induction n)
  case 0
  then show ?case by simp
next
  case (Suc n)
  show ?case
  proof (cases "s ! n = c")
    case True
    with Suc.prems show ?thesis by auto
  next
    case False
    with Suc.prems have "lastIndexOfFrom s c n = int k" by simp
    from Suc.IH [OF this] False show ?thesis
      by (auto simp: less_Suc_eq)
  qed
qed

lemma lastIndexOfFrom_range:
  "- 1 \<le> lastIndexOfFrom s c n \<and> lastIndexOfFrom s c n < int n"
  by (induction n) auto

lemma substring_prefix: "k \<le> length s \<Longrightarrow> substring s 0 (Some (int k)) = take k s"
  by (simp add: substring_def Let_def min_def max_def)

lemma substring_suffix:
  assumes "k < length s"
  shows "substring s (int k + 1) None = drop (Suc k) s"
proof -
  have fs: "min (max (int k + 1) 0) (int (length s)) = int (Suc k)"
    using assms by simp
  have fe: "min (max (int (length s)) 0) (int (length s)) = int (length s)"
    by simp
  have mn: "min (int (Suc k)) (int (length s)) = int (Suc k)"
    and mx: "max (int (Suc k)) (int (length s)) = int (length s)"
    using assms by simp_all
  have df: "nat (int (length s) - int (Suc k)) = length s - Suc k"
    by simp
  have "substring s (int k + 1) None = take (length s - Suc k) (drop (Suc k) s)"
    unfolding substring_def Let_def option.case fs fe mn mx df nat_int ..
  then show ?thesis by simp
qed

lemma lastIndexOf_last_hit:
  assumes "i < length s" "s ! i = c"
  shows "\<exists>k. lastIndexOf s c = int k \<and> i \<le> k \<and> k < length s \<and> s ! k = c
           \<and> (\<forall>j. k < j \<and> j < length s \<longrightarrow> s ! j \<noteq> c)"
proof -
  let ?r = "lastIndexOfFrom s c (length s)"
  from assms have "?r \<noteq> - 1" by (auto simp: lastIndexOfFrom_none)
  with lastIndexOfFrom_range [of s c "length s"] have "0 \<le> ?r" by arith
  then obtain k where k: "?r = int k" by (metis nonneg_int_cases)
  from lastIndexOfFrom_found [OF k]
  have f: "k < length s" "s ! k = c" "\<forall>j. k < j \<and> j < length s \<longrightarrow> s ! j \<noteq> c" by auto
  from f(3) assms have "i \<le> k" by (metis not_le_imp_less)
  with k f show ?thesis by (auto simp: lastIndexOf_def)
qed

lemma nth_in_drop:
  assumes "k < j" "j < length s"
  shows "s ! j \<in> set (drop (Suc k) s)"
proof -
  from assms have "drop (Suc k) s ! (j - Suc k) = s ! j" by simp
  moreover from assms have "j - Suc k < length (drop (Suc k) s)" by simp
  ultimately show ?thesis by (metis nth_mem)
qed

lemma lastIndexOf_eq:
  assumes "k < length s" "s ! k = c" "c \<notin> set (drop (Suc k) s)"
  shows "lastIndexOf s c = int k"
proof -
  from lastIndexOf_last_hit [OF assms(1,2)] obtain k'
    where k': "lastIndexOf s c = int k'" "k \<le> k'" "k' < length s" "s ! k' = c" by blast
  have "\<not> k < k'"
  proof
    assume "k < k'"
    from nth_in_drop [OF this k'(3)] k'(4) assms(3) show False by simp
  qed
  with k'(1,2) show ?thesis by simp
qed

lemma lastIndexOf_pos_iff: "(0 < lastIndexOf s c) = (c \<in> set (tl s))"
proof
  assume pos: "0 < lastIndexOf s c"
  then obtain k where k: "lastIndexOfFrom s c (length s) = int k" and "0 < k"
    unfolding lastIndexOf_def by (metis nonneg_int_cases less_imp_le of_nat_0_less_iff)
  from lastIndexOfFrom_found [OF k] have "k < length s" "s ! k = c" by auto
  with \<open>0 < k\<close> nth_in_drop [of 0 k s] show "c \<in> set (tl s)" by (simp add: drop_Suc)
next
  assume "c \<in> set (tl s)"
  then obtain j where j: "j < length (tl s)" "tl s ! j = c" by (metis in_set_conv_nth)
  then have "Suc j < length s" "s ! Suc j = c" by (simp_all add: nth_tl)
  from lastIndexOf_last_hit [OF this] show "0 < lastIndexOf s c" by auto
qed

lemma trailing_hash_iff:
  assumes "lastIndexOf s c = int k" "0 < k"
  shows "(drop (Suc k) s = []) = (1 < length s \<and> last s = c)"
proof
  from assms have k: "lastIndexOfFrom s c (length s) = int k" by (simp add: lastIndexOf_def)
  from lastIndexOfFrom_found [OF k] have f: "k < length s" "s ! k = c" by auto
  assume "drop (Suc k) s = []"
  with f have "k = length s - 1" by simp
  moreover from f have "s \<noteq> []" by auto
  ultimately show "1 < length s \<and> last s = c"
    using f assms(2) by (simp add: last_conv_nth)
next
  assume a: "1 < length s \<and> last s = c"
  then have "s \<noteq> []" by auto
  with a have "length s - 1 < length s" "s ! (length s - 1) = c"
    by (simp_all add: last_conv_nth)
  from lastIndexOf_last_hit [OF this] assms(1) have "length s - 1 \<le> k" by auto
  then show "drop (Suc k) s = []" by simp
qed

text \<open>
  Two readings used below: "no \<open>#\<close> after index \<open>k\<close>" and "no \<open>#\<close> at an index
  greater than 0" as statements about the rest of the list; and every string with a
  \<open>#\<close> at some index has a last one, at that index or later.
\<close>

lemma no_hash_after_iff:
  "(c \<notin> set (drop (Suc k) s)) = (\<forall>j. k < j \<and> j < length s \<longrightarrow> s ! j \<noteq> c)"
proof
  assume n: "c \<notin> set (drop (Suc k) s)"
  show "\<forall>j. k < j \<and> j < length s \<longrightarrow> s ! j \<noteq> c"
  proof (intro allI impI)
    fix j assume "k < j \<and> j < length s"
    then have "s ! j \<in> set (drop (Suc k) s)" by (simp add: nth_in_drop)
    with n show "s ! j \<noteq> c" by auto
  qed
next
  assume a: "\<forall>j. k < j \<and> j < length s \<longrightarrow> s ! j \<noteq> c"
  show "c \<notin> set (drop (Suc k) s)"
  proof
    assume "c \<in> set (drop (Suc k) s)"
    then obtain m where m: "m < length (drop (Suc k) s)" "drop (Suc k) s ! m = c"
      by (metis in_set_conv_nth)
    then have "k < Suc k + m" "Suc k + m < length s" "s ! (Suc k + m) = c" by auto
    with a show False by blast
  qed
qed

lemma no_hash_after_first_iff:
  "(c \<notin> set (tl s)) = (\<forall>i. 0 < i \<and> i < length s \<longrightarrow> s ! i \<noteq> c)"
  using no_hash_after_iff [of c 0 s] by (simp add: drop_Suc)

lemma last_hash_exists:
  fixes s :: js_string
  assumes "i < length s" "s ! i = c"
  shows "\<exists>k. i \<le> k \<and> k < length s \<and> s ! k = c \<and> c \<notin> set (drop (Suc k) s)"
  using lastIndexOf_last_hit [OF assms] by (auto simp: no_hash_after_iff)

section \<open>The parser on each kind of descriptor\<close>

lemma parse_string:
  "s \<noteq> [] \<Longrightarrow> parsePayloadComponent (PString s) =
     (if 0 < lastIndexOf s hash
      then Inr (Some \<lparr> exportName = Str (substring s (lastIndexOf s hash + 1) None),
                       path = Str (substring s 0 (Some (lastIndexOf s hash))) \<rparr>)
      else Inr (Some \<lparr> exportName = Str (js ''default''), path = Str s \<rparr>))"
  by (simp add: parsePayloadComponent_def bind_err_def Let_def)

lemma parse_object_string:
  "parsePayloadComponent (PObject (Str s) e) =
     (if 0 < lastIndexOf s hash
      then Inr (Some \<lparr> exportName = (if truthy_value e then e else Str (substring s (lastIndexOf s hash + 1) None)),
                       path = Str (substring s 0 (Some (lastIndexOf s hash))) \<rparr>)
      else Inr (Some \<lparr> exportName = (if truthy_value e then e else Str (js ''default'')), path = Str s \<rparr>))"
  by (simp add: parsePayloadComponent_def bind_err_def Let_def)

lemma parse_object_absent:
  "p = Undefined \<or> p = Null \<Longrightarrow> parsePayloadComponent (PObject p e) =
      Inr (Some \<lparr> exportName = (if truthy_value e then e else Str (js ''default'')), path = p \<rparr>)"
  by (auto simp add: parsePayloadComponent_def bind_err_def Let_def)

lemma default_nonempty: "js ''default'' \<noteq> []"
  by (simp add: js_def)

lemma suffix_empty_iff:
  "((if 0 < lastIndexOf s hash then substring s (lastIndexOf s hash + 1) None
     else js ''default'') = []) = (1 < length s \<and> last s = hash)"
proof (cases "0 < lastIndexOf s hash")
  case True
  then obtain k where k: "lastIndexOf s hash = int k" "0 < k"
    by (metis nonneg_int_cases less_imp_le of_nat_0_less_iff)
  then have "lastIndexOfFrom s hash (length s) = int k" by (simp add: lastIndexOf_def)
  from lastIndexOfFrom_found [OF this] have "k < length s" by simp
  with k True trailing_hash_iff [OF k] show ?thesis
    by (simp add: substring_suffix)
next
  case False
  then have n: "hash \<notin> set (tl s)" by (simp add: lastIndexOf_pos_iff)
  have "\<not> (1 < length s \<and> last s = hash)"
  proof
    assume a: "1 < length s \<and> last s = hash"
    then have "tl s \<noteq> []" by (cases s) auto
    then have "last (tl s) \<in> set (tl s)" by simp
    moreover from a \<open>tl s \<noteq> []\<close> have "last (tl s) = hash" by (cases s) auto
    ultimately show False using n by simp
  qed
  with False show ?thesis by (simp add: default_nonempty)
qed

section \<open>Claims about the parser\<close>

subsection \<open>C1: when the export name is empty\<close>

text \<open>
  C1 as written fails: for the string \<open>"a#"\<close> the last \<open>#\<close> is at index 1, so the
  parser splits there and the export name is everything after it, the empty string.
\<close>

theorem parse_trailing_hash_counterexample:
  "parsePayloadComponent (PString (js ''a#'')) =
     Inr (Some \<lparr> exportName = Str (js ''''), path = Str (js ''a'') \<rparr>)"
  by (simp add: parsePayloadComponent_def bind_err_def Let_def js_def hash_def
        lastIndexOf_def substring_def)

text \<open>
  C1, amended: for every descriptor the parser accepts, the export name is the empty
  string exactly when the scanned path string ends in a \<open>#\<close> that is not its first
  character and the object gives no non-empty \<open>exportName\<close>; and it is \<open>"default"\<close>
  whenever the scanned path has no \<open>#\<close> after its first character (or is absent) and
  the object gives no non-empty \<open>exportName\<close>.
\<close>

theorem exportName_empty_only_after_trailing_hash:
  assumes "parsePayloadComponent pc = Inr (Some r)"
  shows "((exportName r = Str []) =
            (\<exists>s. 1 < length s \<and> last s = hash \<and>
                 (pc = PString s \<or> (\<exists>e. pc = PObject (Str s) e \<and> \<not> truthy_value e))))
         \<and> ((\<exists>s. hash \<notin> set (tl s) \<and>
                  (pc = PString s \<or> (\<exists>e. pc = PObject (Str s) e \<and> \<not> truthy_value e)))
              \<or> (\<exists>p e. pc = PObject p e \<and> (p = Undefined \<or> p = Null) \<and> \<not> truthy_value e)
             \<longrightarrow> exportName r = Str (js ''default''))"
proof (cases pc)
  case PUndefined
  with assms show ?thesis by (simp add: parsePayloadComponent_def)
next
  case PNull
  with assms show ?thesis by (simp add: parsePayloadComponent_def)
next
  case PFalse
  with assms show ?thesis by (simp add: parsePayloadComponent_def)
next
  case (PString s)
  with assms have ne: "s \<noteq> []" by (auto simp: parsePayloadComponent_def)
  from assms PString ne
  have r: "exportName r = Str (if 0 < lastIndexOf s hash
                               then substring s (lastIndexOf s hash + 1) None
                               else js ''default'')"
    by (auto simp: parse_string split: if_splits)
  from r suffix_empty_iff [of s] PString show ?thesis
    by (auto simp: lastIndexOf_pos_iff)
next
  case (PObject p e)
  show ?thesis
  proof (cases p)
    case (Str s)
    with assms PObject
    have r: "exportName r = (if truthy_value e then e
                             else Str (if 0 < lastIndexOf s hash
                               then substring s (lastIndexOf s hash + 1) None
                               else js ''default''))"
      by (auto simp: parse_object_string split: if_splits)
    have t: "truthy_value e \<Longrightarrow> e \<noteq> Str []" by (cases e) auto
    from r suffix_empty_iff [of s] PObject Str t show ?thesis
      by (auto simp: lastIndexOf_pos_iff)
  next
    case Undefined
    have t: "truthy_value e \<Longrightarrow> e \<noteq> Str []" by (cases e) auto
    from assms PObject Undefined t show ?thesis
      by (auto simp: parse_object_absent default_nonempty split: if_splits)
  next
    case Null
    have t: "truthy_value e \<Longrightarrow> e \<noteq> Str []" by (cases e) auto
    from assms PObject Null t show ?thesis
      by (auto simp: parse_object_absent default_nonempty split: if_splits)
  qed
qed

theorem exportName_empty_only_after_trailing_hash_witness:
  "parsePayloadComponent (PObject (Str (js ''a/b'')) (Str (js ''''))) =
     Inr (Some \<lparr> exportName = Str (js ''default''), path = Str (js ''a/b'') \<rparr>)
   \<and> exportName \<lparr> exportName = Str (js ''default''), path = Str (js ''a/b'') \<rparr> \<noteq> Str []"
proof -
  let ?pc = "PObject (Str (js ''a/b'')) (Str (js ''''))"
  let ?r = "\<lparr> exportName = Str (js ''default''), path = Str (js ''a/b'') \<rparr>"
  have h: "parsePayloadComponent ?pc = Inr (Some ?r)"
    by (simp add: parsePayloadComponent_def bind_err_def Let_def js_def hash_def
          lastIndexOf_def)
  have n: "\<exists>s. hash \<notin> set (tl s) \<and>
             (?pc = PString s \<or> (\<exists>e. ?pc = PObject (Str s) e \<and> \<not> truthy_value e))"
    by (simp add: js_def hash_def)
  from exportName_empty_only_after_trailing_hash [OF h] n
  have "exportName ?r = Str (js ''default'')" by blast
  with h show ?thesis by (simp add: js_def)
qed

subsection \<open>C2: a string is split at its last separator\<close>

text \<open>
  C2: when \<open>k > 0\<close> is the index of the last \<open>#\<close> of a string (a \<open>#\<close> at \<open>k\<close>,
  none after it), the parser returns everything before index \<open>k\<close> as the path and
  everything after it as the export name. By \<open>last_hash_exists\<close> every string with a
  \<open>#\<close> at an index greater than 0 has such a \<open>k\<close>.
\<close>

theorem parse_string_splits_at_last_hash:
  assumes "0 < k" "k < length s" "s ! k = hash" "hash \<notin> set (drop (Suc k) s)"
  shows "parsePayloadComponent (PString s) =
           Inr (Some \<lparr> exportName = Str (drop (Suc k) s), path = Str (take k s) \<rparr>)"
proof -
  from assms have i: "lastIndexOf s hash = int k" by (simp add: lastIndexOf_eq)
  from assms have "s \<noteq> []" by auto
  with i assms(1,2) show ?thesis
    by (simp add: parse_string substring_prefix substring_suffix)
qed

theorem parse_string_splits_at_last_hash_witness:
  "parsePayloadComponent (PString (js ''a/b/c#Named'')) =
     Inr (Some \<lparr> exportName = Str (js ''Named''), path = Str (js ''a/b/c'') \<rparr>)"
  using parse_string_splits_at_last_hash [of 5 "js ''a/b/c#Named''"]
  by (simp add: js_def hash_def)

subsection \<open>C3: an explicit export name and a suffix\<close>

text \<open>
  C3 as written fails: an \<open>exportName\<close> field that is present but the empty string
  does not win over the suffix parsed out of the path.
\<close>

theorem parse_object_empty_name_counterexample:
  "parsePayloadComponent (PObject (Str (js ''a/b#X'')) (Str (js ''''))) =
     Inr (Some \<lparr> exportName = Str (js ''X''), path = Str (js ''a/b'') \<rparr>)
   \<and> Str (js ''X'') \<noteq> Str (js '''')"
  by (simp add: parsePayloadComponent_def bind_err_def Let_def js_def hash_def
        lastIndexOf_def substring_def)

text \<open>
  C3, amended: for an object whose path has its last \<open>#\<close> at an index \<open>k > 0\<close> and
  whose \<open>exportName\<close> field is a non-empty string, the parser returns the path cut
  before that \<open>#\<close> and the export name of the field, not the suffix.
\<close>

theorem parse_object_explicit_name_wins:
  assumes "0 < k" "k < length s" "s ! k = hash" "hash \<notin> set (drop (Suc k) s)" "e \<noteq> []"
  shows "parsePayloadComponent (PObject (Str s) (Str e)) =
           Inr (Some \<lparr> exportName = Str e, path = Str (take k s) \<rparr>)"
proof -
  from assms have i: "lastIndexOf s hash = int k" by (simp add: lastIndexOf_eq)
  with assms(1,2,5) show ?thesis
    by (simp add: parse_object_string substring_prefix)
qed

theorem parse_object_explicit_name_wins_witness:
  "parsePayloadComponent (PObject (Str (js ''a/b#X'')) (Str (js ''Y''))) =
     Inr (Some \<lparr> exportName = Str (js ''Y''), path = Str (js ''a/b'') \<rparr>)"
  using parse_object_explicit_name_wins [of 3 "js ''a/b#X''" "js ''Y''"]
  by (simp add: js_def hash_def)

subsection \<open>C4: when the parser returns null\<close>

text \<open>
  C4 as written fails: the absent descriptor is not the only input for which the parser
  returns \<open>null\<close>; the empty string, which is neither \<open>null\<close> nor \<open>undefined\<close>,
  gets \<open>null\<close> too.
\<close>

theorem parse_empty_string_counterexample:
  "parsePayloadComponent (PString (js '''')) = Inr None
   \<and> PString (js '''') \<noteq> PNull \<and> PString (js '''') \<noteq> PUndefined"
  by (simp add: parsePayloadComponent_def js_def)

text \<open>
  C4, amended: the parser returns \<open>null\<close> for \<open>null\<close> and for \<open>undefined\<close>; it
  returns \<open>null\<close> exactly for the falsy descriptors (\<open>null\<close>, \<open>undefined\<close>,
  \<open>false\<close> and the empty string), returns an object for every other descriptor, and
  never throws.
\<close>

theorem parse_null_iff_falsy:
  "parsePayloadComponent PNull = Inr None
   \<and> parsePayloadComponent PUndefined = Inr None
   \<and> (\<forall>pc. (parsePayloadComponent pc = Inr None) =
             (pc = PNull \<or> pc = PUndefined \<or> pc = PFalse \<or> pc = PString []))
   \<and> (\<forall>pc. parsePayloadComponent pc \<noteq> Inl TypeError)"
proof -
  have a: "(parsePayloadComponent pc = Inr None) =
             (pc = PNull \<or> pc = PUndefined \<or> pc = PFalse \<or> pc = PString [])" for pc
  proof (cases pc)
    case (PString s)
    show ?thesis
    proof (cases "s = []")
      case True
      with PString show ?thesis by (simp add: parsePayloadComponent_def)
    next
      case False
      with PString show ?thesis by (simp add: parse_string)
    qed
  next
    case (PObject p e)
    then show ?thesis by (cases p) (simp_all add: parse_object_string parse_object_absent)
  qed (simp_all add: parsePayloadComponent_def)
  have b: "parsePayloadComponent pc \<noteq> Inl TypeError" for pc
  proof (cases pc)
    case (PString s)
    show ?thesis
    proof (cases "s = []")
      case True
      with PString show ?thesis by (simp add: parsePayloadComponent_def)
    next
      case False
      with PString show ?thesis by (simp add: parse_string)
    qed
  next
    case (PObject p e)
    then show ?thesis by (cases p) (simp_all add: parse_object_string parse_object_absent)
  qed (simp_all add: parsePayloadComponent_def)
  from a b show ?thesis by (simp add: parsePayloadComponent_def)
qed

subsection \<open>C5: a string without a separator\<close>

text \<open>
  C5: for a non-empty string with no \<open>#\<close> after its first character (none at an
  index greater than 0, by \<open>no_hash_after_first_iff\<close>), the parser returns the whole
  string as the path and \<open>"default"\<close> as the export name.
\<close>

theorem parse_string_without_separator:
  assumes "s \<noteq> []" "hash \<notin> set (tl s)"
  shows "parsePayloadComponent (PString s) =
           Inr (Some \<lparr> exportName = Str (js ''default''), path = Str s \<rparr>)"
  using assms by (simp add: parse_string lastIndexOf_pos_iff)

theorem parse_string_without_separator_witness:
  "parsePayloadComponent (PString (js ''a/b/c'')) =
     Inr (Some \<lparr> exportName = Str (js ''default''), path = Str (js ''a/b/c'') \<rparr>)
   \<and> parsePayloadComponent (PString (js ''#leadingHash'')) =
     Inr (Some \<lparr> exportName = Str (js ''default''), path = Str (js ''#leadingHash'') \<rparr>)"
  using parse_string_without_separator [of "js ''a/b/c''"]
    parse_string_without_separator [of "js ''#leadingHash''"]
  by (simp add: js_def hash_def)

subsection \<open>C10: an object without a path\<close>

text \<open>
  C10 as written fails: when the path field is \<open>null\<close>, the path of the result is
  \<open>null\<close>, not \<open>undefined\<close>.
\<close>

theorem parse_object_null_path_counterexample:
  "parsePayloadComponent (PObject Null Undefined) =
      Inr (Some \<lparr> exportName = Str (js ''default''), path = Null \<rparr>)
   \<and> parsePayloadComponent (PObject Null Undefined) \<noteq>
      Inr (Some \<lparr> exportName = Str (js ''default''), path = Undefined \<rparr>)"
  by (simp add: parsePayloadComponent_def bind_err_def Let_def)

text \<open>
  C10, amended: for an object whose path field is \<open>undefined\<close> or \<open>null\<close> the
  optional call gives the index \<open>-1\<close> and the parser does not throw; it returns that
  path value unchanged, with the export name \<open>"default"\<close>, or the \<open>exportName\<close>
  field when that is a non-empty string.
\<close>

theorem parse_object_absent_path:
  assumes "p = Undefined \<or> p = Null"
  shows "lastHashIndex_of p = - 1
         \<and> parsePayloadComponent (PObject p e) =
           Inr (Some \<lparr> exportName = (if truthy_value e then e else Str (js ''default'')),
                        path = p \<rparr>)"
  using assms parse_object_absent [of p e] by auto

theorem parse_object_absent_path_witness:
  "parsePayloadComponent (PObject Undefined Undefined) =
      Inr (Some \<lparr> exportName = Str (js ''default''), path = Undefined \<rparr>)
   \<and> parsePayloadComponent (PObject Null (Str (js ''Y''))) =
      Inr (Some \<lparr> exportName = Str (js ''Y''), path = Null \<rparr>)"
  using parse_object_absent_path [of Undefined Undefined]
    parse_object_absent_path [of Null "Str (js ''Y'')"]
  by (simp add: js_def)

subsection \<open>C9: the empty string\<close>

text \<open>
  C9: the empty string is falsy, so \<open>parse("")\<close> returns \<open>null\<close>, as for an absent
  descriptor; it is not normalised to \<open>{path: "", exportName: "default"}\<close>.
\<close>

theorem parse_empty_string_null:
  "parsePayloadComponent (PString (js '''')) = Inr None
   \<and> parsePayloadComponent (PString (js '''')) \<noteq>
       Inr (Some \<lparr> exportName = Str (js ''default''), path = Str (js '''') \<rparr>)"
  by (simp add: parsePayloadComponent_def js_def)

section \<open>Claims about the list control panel\<close>

subsection \<open>C6: the drawer toggles\<close>

lemma click_eq: "click d s = (if s = Some d then None else Some d)"
  by (cases d) (simp_all add: onClick_columns_def onClick_where_def onClick_sort_def)

text \<open>
  C6 as written fails: from the state in which a drawer is open, clicking its toggle
  twice closes it and opens it again, so visibility does not return to closed.
\<close>

theorem click_twice_counterexample:
  "click Columns (click Columns (Some Columns)) = Some Columns
   \<and> click Columns (click Columns (Some Columns)) \<noteq> None"
  by (simp add: onClick_columns_def)

text \<open>
  C6, amended: clicking the toggle of drawer \<open>d\<close> in state \<open>s\<close> opens \<open>d\<close> when
  \<open>s\<close> is not \<open>d\<close> and closes everything when it is; clicking it twice returns to
  closed from every state in which \<open>d\<close> is not open, and to \<open>d\<close> open from the state
  in which it is; clicking it while another drawer is open switches to \<open>d\<close>; and in
  no state are two regions open.
\<close>

theorem click_toggles_drawer:
  "click d s = (if s = Some d then None else Some d)
   \<and> (s \<noteq> Some d \<longrightarrow> click d (click d s) = None)
   \<and> click d (click d (Some d)) = Some d
   \<and> (d' \<noteq> d \<longrightarrow> click d (Some d') = Some d)
   \<and> (region_open props s d \<and> region_open props s d' \<longrightarrow> d = d')"
proof -
  have o: "region_open props s x \<Longrightarrow> s = Some x" for x
    by (cases x) simp_all
  have "region_open props s d \<and> region_open props s d' \<longrightarrow> d = d'"
    using o [of d] o [of d'] by auto
  then show ?thesis by (simp add: click_eq)
qed

theorem click_toggles_drawer_witness:
  "click Sort (Some Where) = Some Sort
   \<and> click Where (click Where None) = None
   \<and> click Where (click Where (Some Columns)) = None
   \<and> click Columns (Some Sort) = Some Columns
   \<and> region_open \<lparr> enableColumns = True, enableSort = True \<rparr> (Some Where) Where
   \<and> \<not> region_open \<lparr> enableColumns = True, enableSort = True \<rparr> (Some Where) Columns"
  using click_toggles_drawer [of Sort "Some Where" Where "\<lparr> enableColumns = True, enableSort = True \<rparr>"]
    click_toggles_drawer [of Where None Where "\<lparr> enableColumns = True, enableSort = True \<rparr>"]
    click_toggles_drawer [of Where "Some Columns" Where "\<lparr> enableColumns = True, enableSort = True \<rparr>"]
    click_toggles_drawer [of Columns "Some Sort" Sort "\<lparr> enableColumns = True, enableSort = True \<rparr>"]
    click_toggles_drawer [of Where "Some Where" Columns "\<lparr> enableColumns = True, enableSort = True \<rparr>"]
  by simp

subsection \<open>C7: the state on mount\<close>

text \<open>
  C7: the initial state is the filter drawer open exactly when \<open>validateWhereQuery\<close>
  accepts the \<open>where\<close> of the current query, and no drawer open otherwise; it is never
  the columns or the sort drawer.
\<close>

theorem initial_drawer_where_iff_valid:
  "(initial_visibleDrawer validateWhereQuery query = Some Where)
      = validateWhereQuery (Option.bind query query_where)
   \<and> (initial_visibleDrawer validateWhereQuery query = None)
      = (\<not> validateWhereQuery (Option.bind query query_where))
   \<and> initial_visibleDrawer validateWhereQuery query \<noteq> Some Columns
   \<and> initial_visibleDrawer validateWhereQuery query \<noteq> Some Sort"
  by (simp add: initial_visibleDrawer_def)

subsection \<open>C8: the search label\<close>








end
